theory Spec2Isabelle
  imports Main
begin

section \<open>The command line interpreter of cli.hpp\<close>

text \<open>
  The header defines two classes: the interface \<open>command_base\<close> (four pure virtual
  methods) and the dispatcher \<open>commandlineinterpreter\<close>, which owns a vector of command
  pointers and the process arguments. The theory models the instantiation over \<open>char\<close>.
  A C string is represented by its characters up to the terminator.
\<close>

subsection \<open>Failures\<close>

text \<open>
  Two exceptions of the standard library can leave \<open>std::stoi\<close>; two kinds of undefined
  behaviour can be reached by the dispatcher itself: a virtual call through a null command
  pointer, and a read of the argument vector outside its bounds.
\<close>

datatype error =
    Invalid_argument
  | Out_of_range
  | Null_dereference
  | Out_of_bounds

subsection \<open>Data\<close>

text \<open>
  The members \<open>argc_\<close> and \<open>argv_\<close> (lines 187-188), here \<open>argc_m\<close> and \<open>argv_m\<close>
  (a name cannot end with an underscore). They are the part of the dispatcher that a
  running command can read, through \<open>get\<close>. Values of the type \<open>int\<close> are integers here:
  the dispatcher computes \<open>argc_ - 2\<close> only when \<open>argc_\<close> is at least 2 and \<open>i + 1\<close> only
  below an argument count, so none of its operations can overflow.
\<close>

record arguments =
  argc_m :: int
  argv_m :: "string list"

text \<open>
  \<open>command_base\<close> (lines 60-80). The three query methods are taken to be pure; \<open>run\<close>
  receives the dispatcher, of which it can read the arguments, and either returns a
  truth value or leaves by an exception. The field is called \<open>run_command\<close>, the name
  \<open>run\<close> being kept for the dispatcher's method.
\<close>

record command_base =
  command :: string
  argumentCount :: int
  argumentName :: "int \<Rightarrow> string"
  run_command :: "arguments \<Rightarrow> error + bool"

text \<open>
  \<open>command_ptr\<close> (line 88): \<open>None\<close> is the null pointer; a non-null entry of the
  registry stands for an object of its own, owned by the dispatcher.
\<close>

type_synonym command_ptr = "command_base option"

record commandlineinterpreter = arguments +
  commands_m :: "command_ptr list"

subsection \<open>Observable behaviour\<close>

text \<open>
  A method of the dispatcher writes characters to the standard output and calls virtual
  methods of the registered commands. Both are recorded, next to the value returned: the
  text written, and the virtual calls in the order they are made, each with the position
  in the registry of the command called.
\<close>

datatype vcall =
    Call_command nat
  | Call_argumentCount nat
  | Call_argumentName nat int
  | Call_run nat

record 'a computation =
  printed :: string
  called :: "vcall list"
  result :: "error + 'a"

definition ret :: "'a \<Rightarrow> 'a computation" where
  "ret x = \<lparr>printed = [], called = [], result = Inr x\<rparr>"

definition fault :: "error \<Rightarrow> 'a computation" where
  "fault e = \<lparr>printed = [], called = [], result = Inl e\<rparr>"

text \<open>\<open>after s vs m\<close>: write \<open>s\<close>, make the calls \<open>vs\<close>, then go on as \<open>m\<close>.\<close>

definition after :: "string \<Rightarrow> vcall list \<Rightarrow> 'a computation \<Rightarrow> 'a computation" where
  "after s vs m = \<lparr>printed = s @ printed m, called = vs @ called m, result = result m\<rparr>"

text \<open>Sequencing: what follows a failure does not happen.\<close>

definition bind :: "'a computation \<Rightarrow> ('a \<Rightarrow> 'b computation) \<Rightarrow> 'b computation" where
  "bind m f =
     (case result m of
        Inl e \<Rightarrow> \<lparr>printed = printed m, called = called m, result = Inl e\<rparr>
      | Inr x \<Rightarrow> after (printed m) (called m) (f x))"

definition seq :: "unit computation \<Rightarrow> 'a computation \<Rightarrow> 'a computation" where
  "seq m n = bind m (\<lambda>_. n)"

fun is_run_call :: "vcall \<Rightarrow> bool" where
  "is_run_call (Call_run k) = True"
| "is_run_call _ = False"

definition endl :: string where
  "endl = [CHR 0x0A]"

subsection \<open>Construction and registration\<close>

text \<open>The constructor (lines 91-93) and \<open>register_command\<close> (line 99).\<close>

definition ctor :: "int \<Rightarrow> string list \<Rightarrow> commandlineinterpreter" where
  "ctor argc argv = \<lparr>argc_m = argc, argv_m = argv, commands_m = []\<rparr>"

definition register_command :: "commandlineinterpreter \<Rightarrow> command_ptr \<Rightarrow> commandlineinterpreter" where
  "register_command st pCommand =
     \<lparr>argc_m = argc_m st, argv_m = argv_m st, commands_m = commands_m st @ [pCommand]\<rparr>"

subsection \<open>String comparison\<close>

text \<open>
  \<open>std::string::compare\<close>, as used in line 113: the characters are compared as unsigned
  bytes from the left, a proper prefix is smaller; the model returns the sign.
\<close>

fun compare :: "string \<Rightarrow> string \<Rightarrow> int" where
  "compare [] [] = 0"
| "compare [] (y # ys) = - 1"
| "compare (x # xs) [] = 1"
| "compare (x # xs) (y # ys) =
     (if (of_char x :: nat) < of_char y then - 1
      else if (of_char y :: nat) < of_char x then 1
      else compare xs ys)"

subsection \<open>help\<close>

text \<open>
  The inner loop of \<open>help\<close> (lines 180-181), for the command \<open>c\<close> at position \<open>k\<close>, from
  the index \<open>i\<close> on: the bound \<open>c->argumentCount()\<close> is asked before every round.
\<close>

function help_labels :: "nat \<Rightarrow> command_base \<Rightarrow> int \<Rightarrow> unit computation" where
  "help_labels k c i =
     (if i < argumentCount c
      then after (''<'' @ argumentName c i @ ''> '') [Call_argumentCount k, Call_argumentName k i]
             (help_labels k c (i + 1))
      else after [] [Call_argumentCount k] (ret ()))"
  by pat_completeness auto
termination
  by (relation "measure (\<lambda>(k, c, i). nat (argumentCount c - i))") auto

declare help_labels.simps [simp del]

text \<open>
  The outer loop (lines 178-183) over the registry, from position \<open>k\<close> on. The lambda calls
  \<open>c->command()\<close> on every entry, also on a null one.
\<close>

fun help_commands :: "nat \<Rightarrow> command_ptr list \<Rightarrow> unit computation" where
  "help_commands k [] = ret ()"
| "help_commands k (None # cs) = fault Null_dereference"
| "help_commands k (Some c # cs) =
     after (command c @ '' '') [Call_command k]
       (seq (help_labels k c 0) (after endl [] (help_commands (k + 1) cs)))"

text \<open>
  \<open>help\<close> (lines 174-184). The macros \<open>__DATE__\<close> and \<open>__TIME__\<close> are fixed when the
  header is compiled; they are the parameters \<open>date\<close> and \<open>time\<close>.
\<close>

definition help_listing :: "string \<Rightarrow> string \<Rightarrow> commandlineinterpreter \<Rightarrow> unit computation" where
  "help_listing date time st =
     after (''built '' @ date @ '' '' @ time @ endl @ endl @ ''Commands:'' @ endl) []
       (help_commands 0 (commands_m st))"

subsection \<open>Searching the registry and reading the arguments\<close>

text \<open>
  \<open>std::find_if\<close> with the lambda of lines 112-114, from position \<open>k\<close> on; it returns the
  position of the first entry whose name compares equal, or the position past the last
  entry.
\<close>

fun find_if :: "nat \<Rightarrow> command_ptr list \<Rightarrow> string \<Rightarrow> nat computation" where
  "find_if k [] name = ret k"
| "find_if k (None # cs) name = fault Null_dereference"
| "find_if k (Some c # cs) name =
     after [] [Call_command k]
       (if compare (command c) name = 0 then ret k else find_if (k + 1) cs name)"

text \<open>Reading \<open>argv_[i]\<close>.\<close>

definition argv_at :: "'a arguments_scheme \<Rightarrow> int \<Rightarrow> error + string" where
  "argv_at a i =
     (if 0 \<le> i \<and> i < int (length (argv_m a)) then Inr (argv_m a ! nat i)
      else Inl Out_of_bounds)"

subsection \<open>get\<close>

text \<open>
  \<open>std::stoi\<close> belongs to the standard library, not to the header. It is modelled after
  the C++ standard (\<open>strtol\<close> in base 10, then the check against the range of \<open>int\<close>,
  32 bits wide): white space is skipped, one sign is accepted, the longest run of decimal
  digits is converted and what follows it is ignored; no digit at all raises
  \<open>std::invalid_argument\<close>, a value that is no \<open>int\<close> raises \<open>std::out_of_range\<close>.
\<close>

definition isspace :: "char \<Rightarrow> bool" where
  "isspace c \<longleftrightarrow> c = CHR '' '' \<or> (9 \<le> (of_char c :: nat) \<and> (of_char c :: nat) \<le> 13)"

definition isdigit :: "char \<Rightarrow> bool" where
  "isdigit c \<longleftrightarrow> 48 \<le> (of_char c :: nat) \<and> (of_char c :: nat) \<le> 57"

definition digit_val :: "char \<Rightarrow> int" where
  "digit_val c = int (of_char c) - 48"

definition decimal :: "string \<Rightarrow> int" where
  "decimal ds = foldl (\<lambda>acc c. 10 * acc + digit_val c) 0 ds"

definition stoi :: "string \<Rightarrow> error + int" where
  "stoi str =
     (let s = dropWhile isspace str;
          negative = (case s of [] \<Rightarrow> False | c # cs \<Rightarrow> c = CHR ''-'');
          body = (case s of [] \<Rightarrow> s | c # cs \<Rightarrow> if c = CHR ''-'' \<or> c = CHR ''+'' then cs else s);
          ds = takeWhile isdigit body
      in if ds = [] then Inl Invalid_argument
         else
           let v = (if negative then - decimal ds else decimal ds)
           in if v < - 2147483648 \<or> 2147483647 < v then Inl Out_of_range else Inr v)"

text \<open>The specialisation \<open>get<int>\<close> (lines 143-144).\<close>

definition get_int :: "'a arguments_scheme \<Rightarrow> int \<Rightarrow> error + int" where
  "get_int a index =
     (case argv_at a (index + 2) of
        Inl e \<Rightarrow> Inl e
      | Inr s \<Rightarrow> stoi s)"

subsection \<open>run\<close>

text \<open>
  \<open>run\<close> (lines 102-133). The two \<open>printf\<close> calls and \<open>help\<close> write to the same
  standard output; the command that is run receives the arguments of the dispatcher.
\<close>

definition run :: "string \<Rightarrow> string \<Rightarrow> commandlineinterpreter \<Rightarrow> int computation" where
  "run date time st =
     (if argc_m st < 2 then seq (help_listing date time st) (ret 1)
      else
        let argc = argc_m st - 2 in
        case argv_at st 1 of
          Inl e \<Rightarrow> fault e
        | Inr cmd \<Rightarrow>
            bind (find_if 0 (commands_m st) cmd) (\<lambda>itr.
              let pCommand = (if itr \<noteq> length (commands_m st) then commands_m st ! itr else None) in
              case pCommand of
                None \<Rightarrow>
                  after (''Unknown command: '' @ cmd @ endl) []
                    (seq (help_listing date time st) (ret 1))
              | Some c \<Rightarrow>
                  after [] [Call_argumentCount itr]
                    (if argumentCount c \<noteq> argc
                     then after (''Wrong number of arguments for command: '' @ cmd @ endl) []
                            (seq (help_listing date time st) (ret 1))
                     else after [] [Call_run itr]
                            (case run_command c (arguments.truncate st) of
                               Inl e \<Rightarrow> fault e
                             | Inr ok \<Rightarrow> if ok then ret 0 else ret 1))))"

subsection \<open>clear\<close>

text \<open>
  \<open>clear\<close> (lines 164-170): every entry is deleted and set to the null pointer; the
  vector itself is not touched.
\<close>

definition clear :: "commandlineinterpreter \<Rightarrow> commandlineinterpreter" where
  "clear st =
     \<lparr>argc_m = argc_m st, argv_m = argv_m st, commands_m = map (\<lambda>c. None) (commands_m st)\<rparr>"

subsection \<open>An example command\<close>

text \<open>
  A command as an application would register it: \<open>add\<close> takes two arguments, labelled
  \<open>x\<close> and \<open>y\<close>, reads both with \<open>get<int>\<close>, adds them and reports success. The sum
  stays inside the command; the dispatcher sees the truth value, or the exception of a
  failed conversion.
\<close>

definition add_command :: command_base where
  "add_command =
     \<lparr>command = ''add'', argumentCount = 2,
      argumentName = (\<lambda>i. if i = 0 then ''x'' else ''y''),
      run_command = (\<lambda>a.
        case get_int a 0 of
          Inl e \<Rightarrow> Inl e
        | Inr x \<Rightarrow> (case get_int a 1 of Inl e \<Rightarrow> Inl e | Inr y \<Rightarrow> Inr True))\<rparr>"

subsection \<open>Descriptions used in the statements\<close>

text \<open>
  The line of the help listing for one command: its name, then every argument label from
  \<open>0\<close> up to the count, each in angle brackets.
\<close>

definition usage_line :: "command_base \<Rightarrow> string" where
  "usage_line c =
     command c @ '' '' @
     concat (map (\<lambda>i. ''<'' @ argumentName c i @ ''> '') [0..argumentCount c - 1]) @ endl"

text \<open>
  A call of \<open>argumentName\<close> is in range when it goes to a live command of the registry
  with an index from \<open>0\<close> up to that command's count; calls of the other methods
  are not restricted.
\<close>

fun label_in_range :: "command_ptr list \<Rightarrow> vcall \<Rightarrow> bool" where
  "label_in_range ps (Call_argumentName k i) =
     (k < length ps \<and> (case ps ! k of None \<Rightarrow> False | Some c \<Rightarrow> 0 \<le> i \<and> i < argumentCount c))"
| "label_in_range ps _ = True"

text \<open>
  The number that a string of decimal digits denotes in positional notation.
\<close>

definition decimal_value :: "string \<Rightarrow> int" where
  "decimal_value ds = (\<Sum>i<length ds. digit_val (ds ! i) * 10 ^ (length ds - Suc i))"

text \<open>
  How \<open>std::stoi\<close> reads a string \<open>s\<close>: as white space \<open>ws\<close>, an optional sign, the
  longest run \<open>ds\<close> of decimal digits that follows, and the rest, which does not begin with
  a digit (nor, when there is neither sign nor digit, with white space or a sign). Every
  string has such a reading.
\<close>

definition numeral_split :: "string \<Rightarrow> string \<Rightarrow> string \<Rightarrow> string \<Rightarrow> string \<Rightarrow> bool" where
  "numeral_split s ws sign ds rest \<longleftrightarrow>
     s = ws @ sign @ ds @ rest
     \<and> list_all isspace ws
     \<and> (sign = [] \<or> sign = ''+'' \<or> sign = ''-'')
     \<and> list_all isdigit ds
     \<and> (case rest of
          [] \<Rightarrow> True
        | c # cs \<Rightarrow> \<not> isdigit c
            \<and> (sign = [] \<and> ds = [] \<longrightarrow> \<not> isspace c \<and> c \<noteq> CHR ''+'' \<and> c \<noteq> CHR ''-''))"

section \<open>Auxiliary facts\<close>

subsection \<open>Recorded behaviour\<close>

lemma ret_sel [simp]:
  "printed (ret x) = []" "called (ret x) = []" "result (ret x) = Inr x"
  by (simp_all add: ret_def)

lemma fault_sel [simp]:
  "printed (fault e) = []" "called (fault e) = []" "result (fault e) = Inl e"
  by (simp_all add: fault_def)

lemma after_sel [simp]:
  "printed (after s vs m) = s @ printed m"
  "called (after s vs m) = vs @ called m"
  "result (after s vs m) = result m"
  by (simp_all add: after_def)

lemma bind_sel:
  "printed (bind m f) = (case result m of Inl e \<Rightarrow> printed m | Inr x \<Rightarrow> printed m @ printed (f x))"
  "called (bind m f) = (case result m of Inl e \<Rightarrow> called m | Inr x \<Rightarrow> called m @ called (f x))"
  "result (bind m f) = (case result m of Inl e \<Rightarrow> Inl e | Inr x \<Rightarrow> result (f x))"
  by (simp_all add: bind_def split: sum.split)

lemma seq_sel:
  "printed (seq m n) = (case result m of Inl e \<Rightarrow> printed m | Inr x \<Rightarrow> printed m @ printed n)"
  "called (seq m n) = (case result m of Inl e \<Rightarrow> called m | Inr x \<Rightarrow> called m @ called n)"
  "result (seq m n) = (case result m of Inl e \<Rightarrow> Inl e | Inr x \<Rightarrow> result n)"
  by (simp_all add: seq_def bind_sel)

lemma compare_eq_0_iff: "compare a b = 0 \<longleftrightarrow> a = b"
  by (induction a b rule: compare.induct) auto

lemma result_help_labels: "result (help_labels k c i) = Inr ()"
  by (induction k c i rule: help_labels.induct) (simp add: help_labels.simps)

lemma printed_help_labels:
  "printed (help_labels k c i) =
     concat (map (\<lambda>j. ''<'' @ argumentName c j @ ''> '') [i..argumentCount c - 1])"
proof (induction k c i rule: help_labels.induct)
  case (1 k c i)
  show ?case
  proof (cases "i < argumentCount c")
    case True
    then have "[i..argumentCount c - 1] = i # [i + 1..argumentCount c - 1]"
      by (simp add: upto_rec1)
    with True "1.IH" show ?thesis
      by (subst help_labels.simps) simp
  next
    case False
    then show ?thesis
      by (subst help_labels.simps) simp
  qed
qed

lemma called_help_labels:
  "set (called (help_labels k c i)) \<subseteq>
     insert (Call_argumentCount k) (Call_argumentName k ` {i..<argumentCount c})"
proof (induction k c i rule: help_labels.induct)
  case (1 k c i)
  show ?case
  proof (cases "i < argumentCount c")
    case True
    have "{i + 1..<argumentCount c} \<subseteq> {i..<argumentCount c}"
      by auto
    then have "Call_argumentName k ` {i + 1..<argumentCount c}
        \<subseteq> Call_argumentName k ` {i..<argumentCount c}"
      by (rule image_mono)
    moreover have "Call_argumentName k i \<in> Call_argumentName k ` {i..<argumentCount c}"
      using True by simp
    moreover note "1.IH" [OF True]
    ultimately show ?thesis
      using True by (subst help_labels.simps) auto
  next
    case False
    then show ?thesis
      by (subst help_labels.simps) simp
  qed
qed

lemma no_run_help_labels: "filter is_run_call (called (help_labels k c i)) = []"
proof -
  have "\<not> is_run_call v" if "v \<in> set (called (help_labels k c i))" for v
    using that called_help_labels [of k c i] by auto
  then show ?thesis
    by (simp add: filter_empty_conv)
qed

lemma result_help_commands: "result (help_commands k (map Some cs)) = Inr ()"
  by (induction cs arbitrary: k) (simp_all add: seq_sel result_help_labels)

lemma printed_help_commands:
  "printed (help_commands k (map Some cs)) = concat (map usage_line cs)"
  by (induction cs arbitrary: k)
    (simp_all add: seq_sel result_help_labels printed_help_labels usage_line_def)

lemma no_run_help_commands: "filter is_run_call (called (help_commands k ps)) = []"
proof (induction k ps rule: help_commands.induct)
  case (3 k c cs)
  then show ?case
    by (simp add: seq_sel result_help_labels no_run_help_labels)
qed simp_all

lemma label_in_range_help_commands:
  "v \<in> set (called (help_commands (length pre) ps)) \<Longrightarrow> label_in_range (pre @ ps) v"
proof (induction ps arbitrary: pre)
  case Nil
  then show ?case by simp
next
  case (Cons p ps)
  show ?case
  proof (cases p)
    case None
    with Cons.prems show ?thesis by simp
  next
    case (Some c)
    with Cons.prems have "v = Call_command (length pre)
        \<or> v \<in> set (called (help_labels (length pre) c 0))
        \<or> v \<in> set (called (help_commands (length (pre @ [p])) ps))"
      by (auto simp: seq_sel result_help_labels)
    then show ?thesis
    proof (elim disjE)
      assume "v = Call_command (length pre)"
      then show ?thesis by simp
    next
      assume "v \<in> set (called (help_labels (length pre) c 0))"
      with called_help_labels [of "length pre" c 0]
      have "v = Call_argumentCount (length pre)
          \<or> (\<exists>j. v = Call_argumentName (length pre) j \<and> 0 \<le> j \<and> j < argumentCount c)"
        by auto
      with Some show ?thesis by auto
    next
      assume "v \<in> set (called (help_commands (length (pre @ [p])) ps))"
      then have "label_in_range ((pre @ [p]) @ ps) v"
        by (rule Cons.IH)
      then show ?thesis by simp
    qed
  qed
qed

lemma after_after: "after s vs (after s' vs' m) = after (s @ s') (vs @ vs') m"
  by (simp add: after_def)

lemma find_if_first:
  "j < length cs \<Longrightarrow> command (cs ! j) = name \<Longrightarrow> (\<forall>i<j. command (cs ! i) \<noteq> name) \<Longrightarrow>
     find_if k (map Some cs) name =
       \<lparr>printed = [], called = map Call_command [k..<k + Suc j], result = Inr (k + j)\<rparr>"
proof (induction cs arbitrary: k j)
  case Nil
  then show ?case by simp
next
  case (Cons c cs)
  show ?case
  proof (cases j)
    case 0
    with Cons.prems show ?thesis
      by (simp add: compare_eq_0_iff after_def ret_def)
  next
    case (Suc j')
    with Cons.prems have c: "command c \<noteq> name"
      by auto
    from Suc Cons.prems have "j' < length cs" "command (cs ! j') = name"
      "\<forall>i<j'. command (cs ! i) \<noteq> name"
      by auto
    then have "find_if (Suc k) (map Some cs) name =
        \<lparr>printed = [], called = map Call_command [Suc k..<Suc k + Suc j'], result = Inr (Suc k + j')\<rparr>"
      by (rule Cons.IH)
    with c Suc show ?thesis
      by (simp add: compare_eq_0_iff after_def upt_conv_Cons)
  qed
qed

lemma find_if_none:
  "name \<notin> command ` set cs \<Longrightarrow>
     find_if k (map Some cs) name =
       \<lparr>printed = [], called = map Call_command [k..<k + length cs], result = Inr (k + length cs)\<rparr>"
proof (induction cs arbitrary: k)
  case Nil
  then show ?case by (simp add: ret_def)
next
  case (Cons c cs)
  then have "find_if (Suc k) (map Some cs) name =
      \<lparr>printed = [], called = map Call_command [Suc k..<Suc k + length cs],
       result = Inr (Suc k + length cs)\<rparr>"
    by simp
  moreover have "[k..<Suc (k + length cs)] = k # [Suc k..<Suc (k + length cs)]"
    by (simp add: upt_conv_Cons del: upt_Suc)
  moreover have "command c \<noteq> name"
    using Cons.prems by auto
  ultimately show ?case
    by (simp add: compare_eq_0_iff after_def del: upt_Suc)
qed

lemma run_matched:
  assumes "commands_m st = map Some cs"
    and "argc_m st = int (length (argv_m st))"
    and "argv_m st = prog # name # args"
    and "j < length cs" and "command (cs ! j) = name" and "\<forall>i<j. command (cs ! i) \<noteq> name"
  shows "run date time st =
     after [] (map Call_command [0..<Suc j] @ [Call_argumentCount j])
       (if argumentCount (cs ! j) \<noteq> int (length args)
        then after (''Wrong number of arguments for command: '' @ name @ endl) []
               (seq (help_listing date time st) (ret 1))
        else after [] [Call_run j]
               (case run_command (cs ! j) (arguments.truncate st) of
                  Inl e \<Rightarrow> fault e
                | Inr ok \<Rightarrow> if ok then ret 0 else ret 1))"
proof -
  have "find_if 0 (commands_m st) name =
      \<lparr>printed = [], called = map Call_command [0..<Suc j], result = Inr j\<rparr>"
    using find_if_first [OF assms(4-6), of 0] assms(1) by simp
  moreover have "argv_at st 1 = Inr name"
    using assms(3) by (simp add: argv_at_def)
  moreover have "\<not> argc_m st < 2" "argc_m st - 2 = int (length args)"
    using assms(2,3) by simp_all
  ultimately show ?thesis
    using assms(1,4) by (simp add: run_def bind_def after_after del: upt_Suc)
qed

lemma run_unmatched:
  assumes "commands_m st = map Some cs"
    and "argc_m st = int (length (argv_m st))"
    and "argv_m st = prog # name # args"
    and "name \<notin> command ` set cs"
  shows "run date time st =
     after (''Unknown command: '' @ name @ endl) (map Call_command [0..<length cs])
       (seq (help_listing date time st) (ret 1))"
proof -
  have "find_if 0 (commands_m st) name =
      \<lparr>printed = [], called = map Call_command [0..<length cs], result = Inr (length cs)\<rparr>"
    using find_if_none [OF assms(4), of 0] assms(1) by simp
  moreover have "argv_at st 1 = Inr name"
    using assms(3) by (simp add: argv_at_def)
  moreover have "\<not> argc_m st < 2"
    using assms(2,3) by simp
  ultimately show ?thesis
    using assms(1) by (simp add: run_def bind_def after_after)
qed

lemma result_help_listing:
  "commands_m st = map Some cs \<Longrightarrow> result (help_listing date time st) = Inr ()"
  by (simp add: help_listing_def result_help_commands)

lemma no_run_help_listing: "filter is_run_call (called (help_listing date time st)) = []"
  by (simp add: help_listing_def no_run_help_commands)

lemma no_run_Call_command: "filter is_run_call (map Call_command ks) = []"
  by (induction ks) simp_all

lemma first_of_distinct:
  assumes "distinct (map command cs)" and "j < length cs" and "command (cs ! j) = name"
  shows "\<forall>i<j. command (cs ! i) \<noteq> name"
proof (intro allI impI)
  fix i
  assume "i < j"
  with assms(2) have "i < length (map command cs)" "j < length (map command cs)" "i \<noteq> j"
    by simp_all
  with nth_eq_iff_index_eq [OF assms(1), of i j]
  have "map command cs ! i \<noteq> map command cs ! j"
    by blast
  with \<open>i < j\<close> assms(2,3) show "command (cs ! i) \<noteq> name"
    by simp
qed

subsection \<open>Conversion of numerals\<close>

lemma decimal_snoc: "decimal (ds @ [d]) = 10 * decimal ds + digit_val d"
  by (simp add: decimal_def)

lemma decimal_value_snoc: "decimal_value (ds @ [d]) = 10 * decimal_value ds + digit_val d"
proof -
  have "(\<Sum>i<length ds. digit_val ((ds @ [d]) ! i) * 10 ^ (length ds - i))
      = (\<Sum>i<length ds. 10 * (digit_val (ds ! i) * 10 ^ (length ds - Suc i)))"
  proof (rule sum.cong)
    fix i
    assume "i \<in> {..<length ds}"
    then have i: "i < length ds"
      by simp
    then have "length ds - i = Suc (length ds - Suc i)"
      by simp
    with i show "digit_val ((ds @ [d]) ! i) * 10 ^ (length ds - i)
        = 10 * (digit_val (ds ! i) * 10 ^ (length ds - Suc i))"
      by (simp add: nth_append)
  qed simp
  then show ?thesis
    by (simp add: decimal_value_def sum_distrib_left)
qed

lemma decimal_is_decimal_value: "decimal ds = decimal_value ds"
proof (induction ds rule: rev_induct)
  case Nil
  show ?case by (simp add: decimal_def decimal_value_def)
next
  case (snoc d ds)
  then show ?case by (simp only: decimal_snoc decimal_value_snoc)
qed

lemma not_isspace_sign_digit:
  "\<not> isspace CHR ''+''" "\<not> isspace CHR ''-''" "isdigit c \<Longrightarrow> \<not> isspace c"
  "\<not> isdigit CHR ''+''" "\<not> isdigit CHR ''-''"
  by (auto simp: isspace_def isdigit_def)

lemma takeWhile_all: "list_all P xs \<Longrightarrow> takeWhile P xs = xs"
  by (induction xs) simp_all

lemma stoi_numeral:
  assumes "sign = [] \<or> sign = ''+'' \<or> sign = ''-''" and "ds \<noteq> []" and "list_all isdigit ds"
  shows "stoi (sign @ ds) =
     (let v = (if sign = ''-'' then - decimal_value ds else decimal_value ds)
      in if - 2147483648 \<le> v \<and> v \<le> 2147483647 then Inr v else Inl Out_of_range)"
proof -
  from assms(2) obtain d ds' where ds: "ds = d # ds'"
    by (cases ds) auto
  with assms(3) have d: "\<not> isspace d" "d \<noteq> CHR ''+''" "d \<noteq> CHR ''-''"
    using not_isspace_sign_digit by auto
  have dw: "dropWhile isspace (sign @ ds) = sign @ ds"
    using assms(1) ds d by (auto simp: not_isspace_sign_digit)
  have neg: "(case sign @ ds of [] \<Rightarrow> False | c # cs \<Rightarrow> c = CHR ''-'') = (sign = ''-'')"
    using assms(1) ds d by auto
  have body: "(case sign @ ds of [] \<Rightarrow> sign @ ds
      | c # cs \<Rightarrow> if c = CHR ''-'' \<or> c = CHR ''+'' then cs else sign @ ds) = ds"
    using assms(1) ds d by auto
  have tw: "takeWhile isdigit ds = ds"
    using assms(3) by (rule takeWhile_all)
  show ?thesis
    unfolding stoi_def Let_def dw neg body tw decimal_is_decimal_value
    using assms(2) by auto
qed

lemma stoi_no_digit:
  assumes "\<forall>c \<in> set s. \<not> isdigit c"
  shows "stoi s = Inl Invalid_argument"
proof -
  have tw: "takeWhile isdigit xs = []" if "set xs \<subseteq> set s" for xs
    using that assms by (cases xs) auto
  have sub: "set (dropWhile isspace s) \<subseteq> set s"
    by (rule set_dropWhileD [THEN subsetI]) 
  show ?thesis
  proof (cases "dropWhile isspace s")
    case Nil
    show ?thesis
      unfolding stoi_def Nil by simp
  next
    case (Cons c cs)
    with sub have "set (c # cs) \<subseteq> set s" "set cs \<subseteq> set s"
      by auto
    then have "takeWhile isdigit (c # cs) = []" "takeWhile isdigit cs = []"
      by (simp_all only: tw)
    then show ?thesis
      unfolding stoi_def Let_def Cons by simp
  qed
qed

lemma dropWhile_no_head: "(case xs of [] \<Rightarrow> True | x # _ \<Rightarrow> \<not> P x) \<Longrightarrow> dropWhile P xs = xs"
  by (cases xs) simp_all

lemma takeWhile_digits_rest:
  "list_all P ds \<Longrightarrow> (case rest of [] \<Rightarrow> True | c # _ \<Rightarrow> \<not> P c) \<Longrightarrow> takeWhile P (ds @ rest) = ds"
  by (induction ds) (auto split: list.splits)

lemma stoi_split:
  assumes "numeral_split s ws sign ds rest"
  shows "stoi s =
     (if ds = [] then Inl Invalid_argument
      else
        let v = (if sign = ''-'' then - decimal_value ds else decimal_value ds)
        in if - 2147483648 \<le> v \<and> v \<le> 2147483647 then Inr v else Inl Out_of_range)"
proof -
  from assms have s: "s = ws @ sign @ ds @ rest"
    and ws: "list_all isspace ws"
    and sign: "sign = [] \<or> sign = ''+'' \<or> sign = ''-''"
    and ds: "list_all isdigit ds"
    and rest: "case rest of [] \<Rightarrow> True | c # cs \<Rightarrow> \<not> isdigit c
            \<and> (sign = [] \<and> ds = [] \<longrightarrow> \<not> isspace c \<and> c \<noteq> CHR ''+'' \<and> c \<noteq> CHR ''-'')"
    by (simp_all add: numeral_split_def)
  have rest_digit: "case rest of [] \<Rightarrow> True | c # _ \<Rightarrow> \<not> isdigit c"
    using rest by (cases rest) simp_all
  have tw: "takeWhile isdigit (ds @ rest) = ds"
    using ds rest_digit by (rule takeWhile_digits_rest)
  have head: "case sign @ ds @ rest of [] \<Rightarrow> True | c # _ \<Rightarrow> \<not> isspace c"
    using sign ds rest
    by (cases ds; cases rest) (auto simp: not_isspace_sign_digit)
  have "dropWhile isspace s = dropWhile isspace (sign @ ds @ rest)"
    unfolding s using ws by (intro dropWhile_append2) (simp add: list_all_iff)
  also have "\<dots> = sign @ ds @ rest"
    using head by (rule dropWhile_no_head)
  finally have dw: "dropWhile isspace s = sign @ ds @ rest" .
  have neg: "(case sign @ ds @ rest of [] \<Rightarrow> False | c # cs \<Rightarrow> c = CHR ''-'') = (sign = ''-'')"
    using sign ds rest
    by (cases ds; cases rest) (auto simp: not_isspace_sign_digit)
  have body: "(case sign @ ds @ rest of [] \<Rightarrow> sign @ ds @ rest
      | c # cs \<Rightarrow> if c = CHR ''-'' \<or> c = CHR ''+'' then cs else sign @ ds @ rest) = ds @ rest"
    using sign ds rest
    by (cases ds; cases rest) (auto simp: not_isspace_sign_digit)
  show ?thesis
    unfolding stoi_def Let_def dw neg body tw decimal_is_decimal_value
    by auto
qed

lemma numeral_split_exists: "\<exists>ws sign ds rest. numeral_split s ws sign ds rest"
proof -
  define ws where "ws = takeWhile isspace s"
  define t where "t = dropWhile isspace s"
  define sign where "sign = (case t of [] \<Rightarrow> [] | c # cs \<Rightarrow>
      if c = CHR ''-'' \<or> c = CHR ''+'' then [c] else [])"
  define body where "body = (case t of [] \<Rightarrow> [] | c # cs \<Rightarrow>
      if c = CHR ''-'' \<or> c = CHR ''+'' then cs else t)"
  define ds where "ds = takeWhile isdigit body"
  define rest where "rest = dropWhile isdigit body"
  have "s = ws @ t"
    by (simp add: ws_def t_def)
  moreover have "t = sign @ body"
    by (auto simp: sign_def body_def split: list.splits)
  moreover have "body = ds @ rest"
    by (simp add: ds_def rest_def)
  ultimately have "s = ws @ sign @ ds @ rest"
    by simp
  moreover have "list_all isspace ws"
    by (auto simp: ws_def list_all_iff dest: set_takeWhileD)
  moreover have "sign = [] \<or> sign = ''+'' \<or> sign = ''-''"
    by (auto simp: sign_def split: list.splits)
  moreover have "list_all isdigit ds"
    by (auto simp: ds_def list_all_iff dest: set_takeWhileD)
  moreover have "case rest of [] \<Rightarrow> True | c # cs \<Rightarrow> \<not> isdigit c
      \<and> (sign = [] \<and> ds = [] \<longrightarrow> \<not> isspace c \<and> c \<noteq> CHR ''+'' \<and> c \<noteq> CHR ''-'')"
  proof (cases rest)
    case Nil
    then show ?thesis by simp
  next
    case (Cons c cs)
    then have nd: "\<not> isdigit c"
      using hd_dropWhile [of isdigit body] by (simp add: rest_def)
    have "\<not> isspace c \<and> c \<noteq> CHR ''+'' \<and> c \<noteq> CHR ''-''" if "sign = []" "ds = []"
    proof -
      from that(2) \<open>body = ds @ rest\<close> Cons have b: "body = c # cs"
        by simp
      with that(1) \<open>t = sign @ body\<close> have tc: "t = c # cs"
        by simp
      then have "\<not> isspace c"
        using hd_dropWhile [of isspace s] by (simp add: t_def)
      moreover from tc that(1) have "c \<noteq> CHR ''+''" "c \<noteq> CHR ''-''"
        by (auto simp: sign_def split: if_splits)
      ultimately show ?thesis by simp
    qed
    with nd Cons show ?thesis by simp
  qed
  ultimately have "numeral_split s ws sign ds rest"
    by (simp add: numeral_split_def)
  then show ?thesis by blast
qed

lemma get_int_in_range:
  "0 \<le> i + 2 \<Longrightarrow> i + 2 < int (length (argv_m a)) \<Longrightarrow> get_int a i = stoi (argv_m a ! nat (i + 2))"
  by (simp add: get_int_def argv_at_def)

lemma run_propagates:
  assumes "commands_m st = map Some cs"
    and "argc_m st = int (length (argv_m st))"
    and "argv_m st = prog # name # args"
    and "j < length cs" and "command (cs ! j) = name"
    and "\<forall>k<j. command (cs ! k) \<noteq> name"
    and "int (length args) = argumentCount (cs ! j)"
    and "run_command (cs ! j) (arguments.truncate st) = Inl e"
  shows "result (run date time st) = Inl e"
  using run_matched [OF assms(1-6), of date time] assms(7,8) by simp

subsection \<open>After clear\<close>

lemma clear_idempotent: "clear (clear st) = clear st"
  by (simp add: clear_def)

lemma run_after_clear:
  assumes "commands_m st \<noteq> []" and "argc_m st = int (length (argv_m st))"
  shows "result (run date time (clear st)) = Inl Null_dereference"
proof -
  from assms(1) obtain p ps where ps: "commands_m st = p # ps"
    by (cases "commands_m st") auto
  show ?thesis
  proof (cases "argc_m st < 2")
    case True
    with ps show ?thesis
      by (simp add: run_def clear_def help_listing_def seq_sel)
  next
    case False
    with assms(2) have "argv_at (clear st) 1 = Inr (argv_m st ! 1)"
      by (simp add: argv_at_def clear_def)
    with False ps show ?thesis
      by (simp add: run_def clear_def bind_sel)
  qed
qed

section \<open>The claims\<close>

text \<open>
  In the statements a dispatcher ``holds the commands \<open>cs\<close>'' when its registry is
  \<open>map Some cs\<close>: every entry is a live command, as after registering the commands of
  \<open>cs\<close> one by one. The arguments are those of a process when \<open>argc_\<close> is the length of
  \<open>argv_\<close>.
\<close>

subsection \<open>clear\<close>

text \<open>
  Claim C9. \<open>clear\<close> leaves the length of the registry unchanged: every entry is
  replaced by the null pointer and no entry is removed. The arguments are not touched.
\<close>

theorem clear_keeps_registry_length:
  "length (commands_m (clear st)) = length (commands_m st)
   \<and> commands_m (clear st) = replicate (length (commands_m st)) None
   \<and> argc_m (clear st) = argc_m st \<and> argv_m (clear st) = argv_m st"
  by (simp add: clear_def map_replicate_const)

subsection \<open>help\<close>

text \<open>
  Claim C8. For a dispatcher holding the commands \<open>cs\<close>, \<open>help\<close> writes the build
  marker line (\<open>built\<close>, the date and the time of compilation), an empty line and the
  heading \<open>Commands:\<close>, and then one line for each command in the order of registration:
  the name of the command followed by each of its argument labels in angle brackets.
\<close>

theorem help_listing_text:
  assumes "commands_m st = map Some cs"
  shows "printed (help_listing date time st) =
           ''built '' @ date @ '' '' @ time @ endl @ endl @ ''Commands:'' @ endl
           @ concat (map usage_line cs)
         \<and> result (help_listing date time st) = Inr ()"
  using assms by (simp add: help_listing_def printed_help_commands result_help_commands)

theorem help_listing_text_witness:
  "commands_m (register_command (ctor 1 [''prog'']) (Some add_command)) = map Some [add_command]
   \<and> printed (help_listing ''Feb  5 2014'' ''09:30:00''
        (register_command (ctor 1 [''prog'']) (Some add_command)))
     = ''built Feb  5 2014 09:30:00'' @ endl @ endl @ ''Commands:'' @ endl @ ''add <x> <y> '' @ endl"
proof -
  have h: "commands_m (register_command (ctor 1 [''prog'']) (Some add_command)) = map Some [add_command]"
    by (simp add: register_command_def ctor_def)
  have u: "[0..(1::int)] = [0, 1]"
    by (simp add: upto_rec1)
  show ?thesis
    using h help_listing_text [OF h, of "''Feb  5 2014''" "''09:30:00''"] u
    by (simp add: usage_line_def add_command_def)
qed

text \<open>
  Claim C10. Whatever the registry holds, every call of \<open>argumentName\<close> that \<open>help\<close>
  makes goes to a live command \<open>c\<close> of the registry with an index \<open>i\<close> such that
  \<open>0 \<le> i < c.argumentCount()\<close>.
\<close>

theorem help_queries_labels_in_range:
  "\<forall>v \<in> set (called (help_listing date time st)). label_in_range (commands_m st) v"
  using label_in_range_help_commands [of _ "[]" "commands_m st"]
  by (simp add: help_listing_def)

theorem help_queries_labels_in_range_witness:
  "Call_argumentName 0 1 \<in> set (called (help_listing ''Feb  5 2014'' ''09:30:00''
        (register_command (ctor 1 [''prog'']) (Some add_command))))
   \<and> label_in_range (commands_m (register_command (ctor 1 [''prog'']) (Some add_command)))
        (Call_argumentName 0 1)"
proof -
  have m: "Call_argumentName 0 1 \<in> set (called (help_listing ''Feb  5 2014'' ''09:30:00''
        (register_command (ctor 1 [''prog'']) (Some add_command))))"
    by (simp add: help_listing_def register_command_def ctor_def add_command_def seq_sel
        help_labels.simps)
  with help_queries_labels_in_range show ?thesis
    by blast
qed

subsection \<open>run\<close>

text \<open>
  Claim C7. With fewer than two arguments, \<open>run\<close> writes the help listing and nothing
  else (no diagnostic line before or after it) and returns 1.
\<close>

theorem run_without_subcommand:
  assumes "commands_m st = map Some cs"
    and "argc_m st = int (length (argv_m st))"
    and "length (argv_m st) < 2"
  shows "printed (run date time st) = printed (help_listing date time st)
    \<and> result (run date time st) = Inr 1
    \<and> filter is_run_call (called (run date time st)) = []"
  using assms(2,3) result_help_listing [OF assms(1), of date time]
  by (simp add: run_def seq_sel no_run_help_listing)

theorem run_without_subcommand_witness:
  "printed (run ''Feb  5 2014'' ''09:30:00''
       (register_command (ctor 1 [''prog'']) (Some add_command)))
     = ''built Feb  5 2014 09:30:00'' @ endl @ endl @ ''Commands:'' @ endl
       @ ''add <x> <y> '' @ endl
   \<and> result (run ''Feb  5 2014'' ''09:30:00''
       (register_command (ctor 1 [''prog'']) (Some add_command))) = Inr 1"
  using run_without_subcommand
    [of "register_command (ctor 1 [''prog'']) (Some add_command)" "[add_command]"
        "''Feb  5 2014''" "''09:30:00''"]
  by (simp add: register_command_def ctor_def add_command_def help_listing_def seq_sel
      help_labels.simps)

text \<open>
  Claim C3. When the second argument is the name of no registered command, \<open>run\<close> writes
  the line \<open>Unknown command: name\<close> and the help listing, returns 1, and calls no
  command's \<open>run\<close> method.
\<close>

theorem run_unknown_command:
  assumes "commands_m st = map Some cs"
    and "argc_m st = int (length (argv_m st))"
    and "argv_m st = prog # name # args"
    and "name \<notin> command ` set cs"
  shows "printed (run date time st) =
           ''Unknown command: '' @ name @ endl @ printed (help_listing date time st)
    \<and> result (run date time st) = Inr 1
    \<and> filter is_run_call (called (run date time st)) = []"
  using run_unmatched [OF assms, of date time] result_help_listing [OF assms(1), of date time]
  by (simp add: seq_sel no_run_Call_command no_run_help_listing)

theorem run_unknown_command_witness:
  "printed (run ''Feb  5 2014'' ''09:30:00''
       (register_command (ctor 4 [''prog'', ''mul'', ''3'', ''4'']) (Some add_command)))
     = ''Unknown command: mul'' @ endl
       @ ''built Feb  5 2014 09:30:00'' @ endl @ endl @ ''Commands:'' @ endl
       @ ''add <x> <y> '' @ endl
   \<and> result (run ''Feb  5 2014'' ''09:30:00''
       (register_command (ctor 4 [''prog'', ''mul'', ''3'', ''4'']) (Some add_command))) = Inr 1
   \<and> filter is_run_call (called (run ''Feb  5 2014'' ''09:30:00''
       (register_command (ctor 4 [''prog'', ''mul'', ''3'', ''4'']) (Some add_command)))) = []"
  using run_unknown_command
    [of "register_command (ctor 4 [''prog'', ''mul'', ''3'', ''4'']) (Some add_command)"
        "[add_command]" "''prog''" "''mul''" "[''3'', ''4'']"
        "''Feb  5 2014''" "''09:30:00''"]
  by (simp add: register_command_def ctor_def add_command_def help_listing_def seq_sel
      help_labels.simps)

text \<open>
  Claim C2. When \<open>c\<close> is the command matched by name and the number of arguments after
  the program name and the command name, \<open>argc - 2\<close>, is not the argument count of \<open>c\<close>,
  then \<open>run\<close> writes the line \<open>Wrong number of arguments for command: name\<close> and the help
  listing, returns 1, and calls no command's \<open>run\<close> method.
\<close>

theorem run_wrong_argument_count:
  assumes "commands_m st = map Some cs"
    and "argc_m st = int (length (argv_m st))"
    and "argv_m st = prog # name # args"
    and "find (\<lambda>c. command c = name) cs = Some c"
    and "argc_m st - 2 \<noteq> argumentCount c"
  shows "printed (run date time st) =
           ''Wrong number of arguments for command: '' @ name @ endl
           @ printed (help_listing date time st)
    \<and> result (run date time st) = Inr 1
    \<and> filter is_run_call (called (run date time st)) = []"
proof -
  from assms(4) obtain j where j: "j < length cs" "command (cs ! j) = name" "c = cs ! j"
    "\<forall>i<j. command (cs ! i) \<noteq> name"
    by (auto simp: find_Some_iff)
  have "argc_m st - 2 = int (length args)"
    using assms(2,3) by simp
  with assms(5) j(3) have "argumentCount (cs ! j) \<noteq> int (length args)"
    by simp
  then have "run date time st =
      after [] (map Call_command [0..<Suc j] @ [Call_argumentCount j])
        (after (''Wrong number of arguments for command: '' @ name @ endl) []
          (seq (help_listing date time st) (ret 1)))"
    using run_matched [OF assms(1,2,3) j(1,2,4), of date time] by simp
  then show ?thesis
    using result_help_listing [OF assms(1), of date time]
    by (simp add: seq_sel no_run_Call_command no_run_help_listing del: upt_Suc)
qed

theorem run_wrong_argument_count_witness:
  "printed (run ''Feb  5 2014'' ''09:30:00''
       (register_command (ctor 3 [''prog'', ''add'', ''3'']) (Some add_command)))
     = ''Wrong number of arguments for command: add'' @ endl
       @ ''built Feb  5 2014 09:30:00'' @ endl @ endl @ ''Commands:'' @ endl
       @ ''add <x> <y> '' @ endl
   \<and> result (run ''Feb  5 2014'' ''09:30:00''
       (register_command (ctor 3 [''prog'', ''add'', ''3'']) (Some add_command))) = Inr 1
   \<and> filter is_run_call (called (run ''Feb  5 2014'' ''09:30:00''
       (register_command (ctor 3 [''prog'', ''add'', ''3'']) (Some add_command)))) = []"
  using run_wrong_argument_count
    [of "register_command (ctor 3 [''prog'', ''add'', ''3'']) (Some add_command)"
        "[add_command]" "''prog''" "''add''" "[''3'']" add_command
        "''Feb  5 2014''" "''09:30:00''"]
  by (simp add: register_command_def ctor_def add_command_def help_listing_def seq_sel
      help_labels.simps)

text \<open>
  Claim C1. A dispatcher holds commands with pairwise distinct names and is run with the
  arguments \<open>prog\<close>, \<open>name\<close>, \<open>a1\<close>, ..., \<open>an\<close>, where \<open>name\<close> is the name of the
  command at position \<open>j\<close> and \<open>n\<close> is its argument count. Then \<open>run\<close> calls the \<open>run\<close>
  method of exactly that command, exactly once, and of no other; it returns 0 when the
  method returns true and 1 when it returns false (an exception of the method leaves
  \<open>run\<close>).
\<close>

theorem run_invokes_matching_command:
  assumes "commands_m st = map Some cs"
    and "distinct (map command cs)"
    and "argc_m st = int (length (argv_m st))"
    and "argv_m st = prog # name # args"
    and "j < length cs" and "command (cs ! j) = name"
    and "int (length args) = argumentCount (cs ! j)"
  shows "filter is_run_call (called (run date time st)) = [Call_run j]
    \<and> result (run date time st) =
        (case run_command (cs ! j) (arguments.truncate st) of
           Inl e \<Rightarrow> Inl e
         | Inr ok \<Rightarrow> Inr (if ok then 0 else 1))"
proof -
  have first: "\<forall>i<j. command (cs ! i) \<noteq> name"
    using assms(2,5,6) by (rule first_of_distinct)
  have "run date time st =
      after [] (map Call_command [0..<Suc j] @ [Call_argumentCount j])
        (after [] [Call_run j]
          (case run_command (cs ! j) (arguments.truncate st) of
             Inl e \<Rightarrow> fault e
           | Inr ok \<Rightarrow> if ok then ret 0 else ret 1))"
    using run_matched [OF assms(1,3,4,5,6) first, of date time] assms(7) by simp
  then show ?thesis
    by (simp add: no_run_Call_command split: sum.split del: upt_Suc)
qed

theorem run_invokes_matching_command_witness:
  "filter is_run_call (called (run ''Feb  5 2014'' ''09:30:00''
       (register_command (ctor 4 [''prog'', ''add'', ''3'', ''4'']) (Some add_command))))
     = [Call_run 0]
   \<and> result (run ''Feb  5 2014'' ''09:30:00''
       (register_command (ctor 4 [''prog'', ''add'', ''3'', ''4'']) (Some add_command))) = Inr 0"
  using run_invokes_matching_command
    [of "register_command (ctor 4 [''prog'', ''add'', ''3'', ''4'']) (Some add_command)"
        "[add_command]" "''prog''" "''add''" "[''3'', ''4'']" 0 "''Feb  5 2014''" "''09:30:00''"]
  by (simp add: register_command_def ctor_def add_command_def arguments.truncate_def
      get_int_def argv_at_def stoi_def isspace_def isdigit_def decimal_def digit_val_def)

text \<open>
  Claim C6. The test of the search, \<open>compare(...) == 0\<close>, is equality of the two strings,
  character by character (so it distinguishes upper and lower case). The search asks the
  commands for their names in the order of registration and stops at the first whose name
  equals the second argument: when \<open>j\<close> is the first position with that name, the search
  returns \<open>j\<close>, and the command at \<open>j\<close> is the one whose \<open>run\<close> method is called, also when
  commands registered later carry the same name.
\<close>

theorem run_matches_first_registered:
  assumes "commands_m st = map Some cs"
    and "argc_m st = int (length (argv_m st))"
    and "argv_m st = prog # name # args"
    and "j < length cs" and "command (cs ! j) = name"
    and "\<forall>i<j. command (cs ! i) \<noteq> name"
    and "int (length args) = argumentCount (cs ! j)"
  shows "(compare a b = 0 \<longleftrightarrow> a = b)
    \<and> called (find_if 0 (commands_m st) name) = map Call_command [0..<Suc j]
    \<and> result (find_if 0 (commands_m st) name) = Inr j
    \<and> filter is_run_call (called (run date time st)) = [Call_run j]
    \<and> result (run date time st) =
        (case run_command (cs ! j) (arguments.truncate st) of
           Inl e \<Rightarrow> Inl e
         | Inr ok \<Rightarrow> Inr (if ok then 0 else 1))"
proof -
  have "find_if 0 (commands_m st) name =
      \<lparr>printed = [], called = map Call_command [0..<Suc j], result = Inr j\<rparr>"
    using find_if_first [OF assms(4-6), of 0] assms(1) by simp
  moreover have "run date time st =
      after [] (map Call_command [0..<Suc j] @ [Call_argumentCount j])
        (after [] [Call_run j]
          (case run_command (cs ! j) (arguments.truncate st) of
             Inl e \<Rightarrow> fault e
           | Inr ok \<Rightarrow> if ok then ret 0 else ret 1))"
    using run_matched [OF assms(1-6), of date time] assms(7) by simp
  ultimately show ?thesis
    by (simp add: compare_eq_0_iff no_run_Call_command split: sum.split del: upt_Suc)
qed

theorem run_matches_first_registered_witness:
  "compare ''Add'' ''add'' \<noteq> 0
   \<and> filter is_run_call (called (run ''Feb  5 2014'' ''09:30:00''
       (register_command (register_command (register_command
          (ctor 4 [''prog'', ''add'', ''3'', ''4''])
          (Some (add_command\<lparr>command := ''Add''\<rparr>)))
          (Some add_command))
          (Some (add_command\<lparr>run_command := (\<lambda>a. Inr False)\<rparr>)))))
     = [Call_run 1]
   \<and> result (run ''Feb  5 2014'' ''09:30:00''
       (register_command (register_command (register_command
          (ctor 4 [''prog'', ''add'', ''3'', ''4''])
          (Some (add_command\<lparr>command := ''Add''\<rparr>)))
          (Some add_command))
          (Some (add_command\<lparr>run_command := (\<lambda>a. Inr False)\<rparr>)))) = Inr 0"
  using run_matches_first_registered
    [of "register_command (register_command (register_command
          (ctor 4 [''prog'', ''add'', ''3'', ''4''])
          (Some (add_command\<lparr>command := ''Add''\<rparr>)))
          (Some add_command))
          (Some (add_command\<lparr>run_command := (\<lambda>a. Inr False)\<rparr>))"
        "[add_command\<lparr>command := ''Add''\<rparr>, add_command,
          add_command\<lparr>run_command := (\<lambda>a. Inr False)\<rparr>]"
        "''prog''" "''add''" "[''3'', ''4'']" 1 "''Add''" "''add''"
        "''Feb  5 2014''" "''09:30:00''"]
  by (simp add: register_command_def ctor_def add_command_def arguments.truncate_def
      get_int_def argv_at_def stoi_def isspace_def isdigit_def decimal_def digit_val_def)

text \<open>
  Claim C4 says that \<open>run\<close> after \<open>clear\<close> behaves as on a dispatcher without commands.
  The code does not: \<open>clear\<close> leaves a null pointer in every slot of the registry, and
  both the search of \<open>run\<close> and the loop of \<open>help\<close> call \<open>command()\<close> through it. With the
  command \<open>add\<close> registered and cleared, \<open>run\<close> ends in a null dereference, with a command
  name in the arguments and without one; a dispatcher that never had a command returns 1
  after the unknown-command line and the (empty) help listing.
\<close>

theorem run_after_clear_dereferences_null:
  "result (run ''Feb  5 2014'' ''09:30:00''
     (clear (register_command (ctor 4 [''prog'', ''add'', ''3'', ''4'']) (Some add_command))))
     = Inl Null_dereference
   \<and> result (run ''Feb  5 2014'' ''09:30:00''
     (clear (register_command (ctor 1 [''prog'']) (Some add_command))))
     = Inl Null_dereference
   \<and> result (run ''Feb  5 2014'' ''09:30:00'' (ctor 4 [''prog'', ''add'', ''3'', ''4''])) = Inr 1
   \<and> printed (run ''Feb  5 2014'' ''09:30:00'' (ctor 4 [''prog'', ''add'', ''3'', ''4'']))
     = ''Unknown command: add'' @ endl
       @ ''built Feb  5 2014 09:30:00'' @ endl @ endl @ ''Commands:'' @ endl
   \<and> result (run ''Feb  5 2014'' ''09:30:00'' (ctor 1 [''prog''])) = Inr 1"
  by (simp add: run_def clear_def register_command_def ctor_def argv_at_def bind_sel seq_sel
      help_listing_def)

subsection \<open>get\<close>

text \<open>
  Claim C5 says that \<open>get<int>\<close> returns the parsed integer on every numeric string and
  raises a parse error on every non-numeric one. Neither half holds as stated. The decimal
  numeral \<open>99999999999\<close> is no \<open>int\<close>: for it \<open>get<int>\<close> raises \<open>std::out_of_range\<close> and
  returns no integer. The string \<open>12abc\<close> is not numeric, yet \<open>get<int>\<close> raises nothing
  and returns 12, since \<open>std::stoi\<close> converts the leading numeral and ignores what follows.
\<close>

theorem get_int_numeric_counterexample:
  "list_all isdigit ''99999999999''
   \<and> get_int \<lparr>argc_m = 3, argv_m = [''prog'', ''id'', ''99999999999'']\<rparr> 0 = Inl Out_of_range
   \<and> get_int \<lparr>argc_m = 3, argv_m = [''prog'', ''id'', ''99999999999'']\<rparr> 0 \<noteq> Inr 99999999999
   \<and> \<not> list_all isdigit ''12abc''
   \<and> get_int \<lparr>argc_m = 3, argv_m = [''prog'', ''id'', ''12abc'']\<rparr> 0 = Inr 12"
  by (simp add: get_int_def argv_at_def stoi_def isspace_def isdigit_def decimal_def digit_val_def)

text \<open>
  Claim C5, amended. For an index \<open>i\<close> whose position \<open>i + 2\<close> lies within the argument
  vector, \<open>get<int>(i)\<close> is \<open>std::stoi\<close> of the argument at position \<open>i + 2\<close>. The argument
  is read as white space, an optional sign and the longest run of decimal digits that
  follows; the rest is ignored. When that run is not empty, the result is the integer it
  denotes (negated after a minus sign) if that lies within the range of \<open>int\<close>, and the
  exception \<open>std::out_of_range\<close> otherwise; when the run is empty, the result is the
  exception \<open>std::invalid_argument\<close>. So a numeral within the range yields its value, also
  when other characters follow it, and a string that does not begin with a numeral raises.
  An exception that leaves the \<open>run\<close> method of the matched command is not caught by the
  dispatcher: it leaves \<open>run\<close> as well.
\<close>

theorem get_int_parses_argument:
  assumes "0 \<le> i + 2" and "i + 2 < int (length (argv_m a))"
  shows "get_int a i = stoi (argv_m a ! nat (i + 2))
    \<and> (\<exists>ws sign ds rest. numeral_split (argv_m a ! nat (i + 2)) ws sign ds rest)
    \<and> (\<forall>ws sign ds rest. numeral_split (argv_m a ! nat (i + 2)) ws sign ds rest \<longrightarrow>
          get_int a i =
            (if ds = [] then Inl Invalid_argument
             else
               let v = (if sign = ''-'' then - decimal_value ds else decimal_value ds)
               in if - 2147483648 \<le> v \<and> v \<le> 2147483647 then Inr v else Inl Out_of_range))
    \<and> (commands_m st = map Some cs \<and> argc_m st = int (length (argv_m st))
          \<and> argv_m st = prog # name # args
          \<and> j < length cs \<and> command (cs ! j) = name \<and> (\<forall>k<j. command (cs ! k) \<noteq> name)
          \<and> int (length args) = argumentCount (cs ! j)
          \<and> run_command (cs ! j) (arguments.truncate st) = Inl e \<longrightarrow>
        result (run date time st) = Inl e)"
proof (intro conjI allI impI)
  show g: "get_int a i = stoi (argv_m a ! nat (i + 2))"
    using assms by (rule get_int_in_range)
  show "\<exists>ws sign ds rest. numeral_split (argv_m a ! nat (i + 2)) ws sign ds rest"
    by (rule numeral_split_exists)
  show "get_int a i =
      (if ds = [] then Inl Invalid_argument
       else
         let v = (if sign = ''-'' then - decimal_value ds else decimal_value ds)
         in if - 2147483648 \<le> v \<and> v \<le> 2147483647 then Inr v else Inl Out_of_range)"
    if "numeral_split (argv_m a ! nat (i + 2)) ws sign ds rest" for ws sign ds rest
    using stoi_split [OF that] g by simp
  show "result (run date time st) = Inl e"
    if "commands_m st = map Some cs \<and> argc_m st = int (length (argv_m st))
          \<and> argv_m st = prog # name # args
          \<and> j < length cs \<and> command (cs ! j) = name \<and> (\<forall>k<j. command (cs ! k) \<noteq> name)
          \<and> int (length args) = argumentCount (cs ! j)
          \<and> run_command (cs ! j) (arguments.truncate st) = Inl e"
    using that run_propagates [of st cs prog name args j e date time] by blast
qed

theorem get_int_parses_argument_witness:
  "get_int \<lparr>argc_m = 6, argv_m = [''prog'', ''add'', '' -37'', ''four'', ''12abc'', ''+-5'']\<rparr> 0
     = Inr (- 37)
   \<and> get_int \<lparr>argc_m = 6, argv_m = [''prog'', ''add'', '' -37'', ''four'', ''12abc'', ''+-5'']\<rparr> 1
     = Inl Invalid_argument
   \<and> get_int \<lparr>argc_m = 6, argv_m = [''prog'', ''add'', '' -37'', ''four'', ''12abc'', ''+-5'']\<rparr> 2
     = Inr 12
   \<and> get_int \<lparr>argc_m = 6, argv_m = [''prog'', ''add'', '' -37'', ''four'', ''12abc'', ''+-5'']\<rparr> 3
     = Inl Invalid_argument
   \<and> result (run ''Feb  5 2014'' ''09:30:00''
        (register_command (ctor 4 [''prog'', ''add'', ''-37'', ''four'']) (Some add_command)))
      = Inl Invalid_argument"
proof -
  let ?a = "\<lparr>argc_m = 6, argv_m = [''prog'', ''add'', '' -37'', ''four'', ''12abc'', ''+-5'']\<rparr>"
  let ?st = "register_command (ctor 4 [''prog'', ''add'', ''-37'', ''four'']) (Some add_command)"
  have v: "decimal_value ''37'' = 37" "decimal_value ''12'' = 12"
    by (simp_all add: decimal_is_decimal_value [symmetric] decimal_def digit_val_def)
  have r: "run_command add_command (arguments.truncate ?st) = Inl Invalid_argument"
    by (simp add: register_command_def ctor_def add_command_def arguments.truncate_def
        get_int_def argv_at_def stoi_def isspace_def isdigit_def decimal_def digit_val_def)
  have h0: "0 \<le> (0::int) + 2" "(0::int) + 2 < int (length (argv_m ?a))"
    and h1: "0 \<le> (1::int) + 2" "(1::int) + 2 < int (length (argv_m ?a))"
    and h2: "0 \<le> (2::int) + 2" "(2::int) + 2 < int (length (argv_m ?a))"
    and h3: "0 \<le> (3::int) + 2" "(3::int) + 2 < int (length (argv_m ?a))"
    by simp_all
  have "get_int ?a 0 = Inr (- 37)"
    using get_int_parses_argument
      [OF h0, THEN conjunct2, THEN conjunct2, THEN conjunct1, rule_format,
        of "'' ''" "''-''" "''37''" "[]"] v
    by (simp add: numeral_split_def isspace_def isdigit_def)
  moreover have "get_int ?a 1 = Inl Invalid_argument"
    using get_int_parses_argument
      [OF h1, THEN conjunct2, THEN conjunct2, THEN conjunct1, rule_format,
        of "[]" "[]" "[]" "''four''"]
    by (simp add: numeral_split_def isspace_def isdigit_def)
  moreover have "get_int ?a 2 = Inr 12"
    using get_int_parses_argument
      [OF h2, THEN conjunct2, THEN conjunct2, THEN conjunct1, rule_format,
        of "[]" "[]" "''12''" "''abc''"] v
    by (simp add: numeral_split_def isspace_def isdigit_def)
  moreover have "get_int ?a 3 = Inl Invalid_argument"
    using get_int_parses_argument
      [OF h3, THEN conjunct2, THEN conjunct2, THEN conjunct1, rule_format,
        of "[]" "''+''" "[]" "''-5''"]
    by (simp add: numeral_split_def isspace_def isdigit_def)
  moreover have "result (run ''Feb  5 2014'' ''09:30:00'' ?st) = Inl Invalid_argument"
    using get_int_parses_argument
      [OF h0, THEN conjunct2, THEN conjunct2, THEN conjunct2,
        of ?st "[add_command]" "''prog''" "''add''" "[''-37'', ''four'']" 0 Invalid_argument
          "''Feb  5 2014''" "''09:30:00''"] r
    by (simp add: register_command_def ctor_def add_command_def)
  ultimately show ?thesis
    by simp
qed

end
